theory Spec2Isabelle
  imports Complex_Main "HOL-Library.Word" "HOL-Library.Char_ord" "HOL-Library.List_Lexorder"
    "HOL-Library.Multiset"
begin

unbundle bit_operations_syntax

section \<open>Python values\<close>

text \<open>
  The program of \<^verbatim>\<open>src/main.py\<close> keeps its ledger in untyped Python values: a block
  and a transaction are dicts with string keys, the chain is a list, and a peer's answer is
  whatever its JSON decodes to.  The model keeps them untyped as well.

  A float is carried with its exact value and with its \<^verbatim>\<open>repr\<close>, the text that
  \<^verbatim>\<open>json.dumps\<close> and an f-string write for it (infinities and NaN are left out).
  Strings are lists of 8-bit characters (code points below 256).  A dict is its list of
  items in insertion order, with distinct keys.  The object that \<^verbatim>\<open>hashlib.sha256\<close>
  returns is \<open>PHash i d\<close>: \<open>i\<close> is its identity (objects are numbered as they are
  created) and \<open>d\<close> the digest of what was fed to it.
\<close>

type_synonym u8 = "8 word"
type_synonym digest = "256 word"

datatype pyfloat = Float (fvalue: rat) (frepr: string)

datatype pyval =
    PNone
  | PBool bool
  | PInt int
  | PFloat pyfloat
  | PStr string
  | PList "pyval list"
  | PDict "(string \<times> pyval) list"
  | PHash nat digest

text \<open>
  Exceptions are values.  \<open>Unmodelled\<close> is not a Python exception: it marks a run that
  leaves the fragment described here (the \<^verbatim>\<open>str\<close> of a container or of a hash object,
  arithmetic on floats).
\<close>

datatype error =
    TypeError
  | KeyError
  | IndexError
  | AttributeError
  | ValueError
  | NameError string
  | ConnectionError
  | JSONDecodeError
  | Unmodelled

subsection \<open>Truth value, length, subscription\<close>

fun truthy :: "pyval \<Rightarrow> bool" where
  "truthy PNone = False"
| "truthy (PBool b) = b"
| "truthy (PInt i) = (i \<noteq> 0)"
| "truthy (PFloat x) = (fvalue x \<noteq> 0)"
| "truthy (PStr s) = (s \<noteq> [])"
| "truthy (PList xs) = (xs \<noteq> [])"
| "truthy (PDict kvs) = (kvs \<noteq> [])"
| "truthy (PHash i d) = True"

fun py_len :: "pyval \<Rightarrow> error + nat" where
  "py_len (PStr s) = Inr (length s)"
| "py_len (PList xs) = Inr (length xs)"
| "py_len (PDict kvs) = Inr (length kvs)"
| "py_len _ = Inl TypeError"

definition seq_index :: "'a list \<Rightarrow> int \<Rightarrow> error + 'a" where
  \<comment> \<open>a negative index counts from the end; out of range raises\<close>
  "seq_index xs i =
     (if 0 \<le> i \<and> i < int (length xs) then Inr (xs ! nat i)
      else if i < 0 \<and> - int (length xs) \<le> i then Inr (xs ! nat (int (length xs) + i))
      else Inl IndexError)"

fun py_index :: "pyval \<Rightarrow> int \<Rightarrow> error + pyval" where
  \<comment> \<open>\<^verbatim>\<open>v[i]\<close> for an integer \<open>i\<close>; no dict of this model has an integer key\<close>
  "py_index (PList xs) i = seq_index xs i"
| "py_index (PStr s) i = map_sum id (\<lambda>c. PStr [c]) (seq_index s i)"
| "py_index (PDict kvs) i = Inl KeyError"
| "py_index _ i = Inl TypeError"

fun py_item :: "pyval \<Rightarrow> string \<Rightarrow> error + pyval" where
  \<comment> \<open>\<^verbatim>\<open>v[k]\<close> for a string \<open>k\<close>\<close>
  "py_item (PDict kvs) k = (case map_of kvs k of None \<Rightarrow> Inl KeyError | Some v \<Rightarrow> Inr v)"
| "py_item _ k = Inl TypeError"

subsection \<open>Comparison\<close>

fun py_num :: "pyval \<Rightarrow> rat option" where
  "py_num (PBool b) = Some (if b then 1 else 0)"
| "py_num (PInt i) = Some (of_int i)"
| "py_num (PFloat x) = Some (fvalue x)"
| "py_num _ = None"

definition py_gt :: "pyval \<Rightarrow> pyval \<Rightarrow> error + bool" where
  \<comment> \<open>\<^verbatim>\<open>a > b\<close> where \<open>b\<close> is a number, as the right operand of the program's only
      \<^verbatim>\<open>>\<close> always is: numbers compare by value, anything else against a number raises\<close>
  "py_gt a b =
     (case (py_num a, py_num b) of
        (Some x, Some y) \<Rightarrow> Inr (y < x)
      | _ \<Rightarrow> Inl TypeError)"

fun py_eq :: "pyval \<Rightarrow> pyval \<Rightarrow> bool"
  and py_eq_list :: "pyval list \<Rightarrow> pyval list \<Rightarrow> bool"
  and py_eq_items :: "(string \<times> pyval) list \<Rightarrow> (string \<times> pyval) list \<Rightarrow> bool" where
  "py_eq (PHash i d) (PHash j e) = (i = j)"
| "py_eq (PHash i d) _ = False"
| "py_eq _ (PHash j e) = False"
| "py_eq PNone b = (b = PNone)"
| "py_eq (PStr s) b = (b = PStr s)"
| "py_eq (PList xs) (PList ys) = py_eq_list xs ys"
| "py_eq (PList xs) _ = False"
| "py_eq (PDict xs) (PDict ys) = (length xs = length ys \<and> py_eq_items xs ys)"
| "py_eq (PDict xs) _ = False"
| "py_eq a b = (case (py_num a, py_num b) of (Some x, Some y) \<Rightarrow> x = y | _ \<Rightarrow> False)"
| "py_eq_list [] [] = True"
| "py_eq_list (x # xs) (y # ys) = (py_eq x y \<and> py_eq_list xs ys)"
| "py_eq_list _ _ = False"
| "py_eq_items [] ys = True"
| "py_eq_items ((k, v) # xs) ys =
     ((case map_of ys k of None \<Rightarrow> False | Some w \<Rightarrow> py_eq v w) \<and> py_eq_items xs ys)"

definition py_ne :: "pyval \<Rightarrow> pyval \<Rightarrow> bool" where
  "py_ne a b = (\<not> py_eq a b)"

section \<open>Text\<close>

subsection \<open>Decimal and hexadecimal digits\<close>

definition digit_char :: "nat \<Rightarrow> char" where
  "digit_char n = ''0123456789abcdef'' ! (n mod 16)"

function dec_nat :: "nat \<Rightarrow> string" where
  "dec_nat n = (if n < 10 then [digit_char n] else dec_nat (n div 10) @ [digit_char (n mod 10)])"
  by pat_completeness auto
termination
  by (relation "measure id") auto

declare dec_nat.simps [simp del]

definition str_int :: "int \<Rightarrow> string" where
  \<comment> \<open>\<^verbatim>\<open>str(i)\<close> of an int\<close>
  "str_int i = (if i < 0 then CHR ''-'' # dec_nat (nat (- i)) else dec_nat (nat i))"

fun py_str :: "pyval \<Rightarrow> string option" where
  \<comment> \<open>what an f-string writes for a value; \<open>None\<close> where this model does not say\<close>
  "py_str PNone = Some ''None''"
| "py_str (PBool b) = Some (if b then ''True'' else ''False'')"
| "py_str (PInt i) = Some (str_int i)"
| "py_str (PFloat x) = Some (frepr x)"
| "py_str (PStr s) = Some s"
| "py_str _ = None"

definition encode :: "string \<Rightarrow> u8 list" where
  \<comment> \<open>\<^verbatim>\<open>str.encode()\<close>: UTF-8, two bytes for the code points 128 to 255\<close>
  "encode s = concat (map (\<lambda>c.
       let n = (of_char c :: nat)
       in if n < 128 then [of_nat n] else [of_nat (192 + n div 64), of_nat (128 + n mod 64)]) s)"

subsection \<open>The text of \<^verbatim>\<open>json.dumps(v, sort_keys=True)\<close>\<close>

definition json_char :: "char \<Rightarrow> string" where
  \<comment> \<open>one character of a JSON string with \<^verbatim>\<open>ensure_ascii\<close>, the default\<close>
  "json_char c =
     (let n = (of_char c :: nat) in
      if n = 34 then [CHR 0x5C, CHR 0x22]
      else if n = 92 then [CHR 0x5C, CHR 0x5C]
      else if n = 10 then [CHR 0x5C, CHR ''n'']
      else if n = 13 then [CHR 0x5C, CHR ''r'']
      else if n = 9 then [CHR 0x5C, CHR ''t'']
      else if n = 8 then [CHR 0x5C, CHR ''b'']
      else if n = 12 then [CHR 0x5C, CHR ''f'']
      else if n < 32 \<or> 126 < n
        then [CHR 0x5C, CHR ''u'', CHR ''0'', CHR ''0'', digit_char (n div 16), digit_char n]
      else [c])"

definition json_string :: "string \<Rightarrow> string" where
  "json_string s = [CHR 0x22] @ concat (map json_char s) @ [CHR 0x22]"

fun join :: "string \<Rightarrow> string list \<Rightarrow> string" where
  "join sep [] = []"
| "join sep [x] = x"
| "join sep (x # y # ys) = x @ sep @ join sep (y # ys)"

text \<open>
  \<open>json_dumps\<close> follows the encoder of the \<^verbatim>\<open>json\<close> module: the items of a dict are sorted
  (their keys are distinct strings, so the order of the keys decides), values are encoded
  in that order, and a value that is none of str, None, bool, int, float, list or dict (here:
  a hash object) raises TypeError.
\<close>

lemma size_list_insort_key [simp]:
  "size_list f (insort_key g x xs) = size_list f (x # xs)"
  by (induction xs) auto

lemma size_list_sort_key [simp]:
  "size_list f (sort_key g xs) = size_list f xs"
  by (induction xs) auto

function json_dumps :: "pyval \<Rightarrow> error + string"
  and json_list :: "pyval list \<Rightarrow> error + string list"
  and json_items :: "(string \<times> pyval) list \<Rightarrow> error + string list" where
  "json_dumps PNone = Inr ''null''"
| "json_dumps (PBool b) = Inr (if b then ''true'' else ''false'')"
| "json_dumps (PInt i) = Inr (str_int i)"
| "json_dumps (PFloat x) = Inr (frepr x)"
| "json_dumps (PStr s) = Inr (json_string s)"
| "json_dumps (PList xs) =
     (case json_list xs of Inl e \<Rightarrow> Inl e | Inr ts \<Rightarrow> Inr (''['' @ join '', '' ts @ '']''))"
| "json_dumps (PDict kvs) =
     (case json_items (sort_key fst kvs) of
        Inl e \<Rightarrow> Inl e
      | Inr ts \<Rightarrow> Inr (''{'' @ join '', '' ts @ ''}''))"
| "json_dumps (PHash i d) = Inl TypeError"
| "json_list [] = Inr []"
| "json_list (x # xs) =
     (case json_dumps x of
        Inl e \<Rightarrow> Inl e
      | Inr t \<Rightarrow> (case json_list xs of Inl e \<Rightarrow> Inl e | Inr ts \<Rightarrow> Inr (t # ts)))"
| "json_items [] = Inr []"
| "json_items ((k, v) # kvs) =
     (case json_dumps v of
        Inl e \<Rightarrow> Inl e
      | Inr t \<Rightarrow>
         (case json_items kvs of
            Inl e \<Rightarrow> Inl e
          | Inr ts \<Rightarrow> Inr ((json_string k @ '': '' @ t) # ts)))"
  by pat_completeness auto
termination
  by (relation "measure (case_sum size (case_sum (size_list size) (size_list (size_prod (\<lambda>k. 0) size))))")
     auto

section \<open>The digest\<close>

text \<open>
  \<^verbatim>\<open>hashlib.sha256\<close> is not part of the repository.  The model takes it as a parameter
  \<open>sha\<close>: a function from the bytes fed to a 256-bit digest.  \<open>hexdigest\<close> writes a digest
  as 64 hexadecimal digits, the most significant first.
\<close>

type_synonym sha_fn = "u8 list \<Rightarrow> digest"

definition hexdigest :: "digest \<Rightarrow> string" where
  "hexdigest d = map (\<lambda>i. digit_char (unat (drop_bit (4 * i) d))) (rev [0..<64])"

section \<open>The class Blockchain\<close>

subsection \<open>hash\<close>

definition hash :: "sha_fn \<Rightarrow> pyval \<Rightarrow> nat \<Rightarrow> error + pyval" where
  \<comment> \<open>\<^verbatim>\<open>hashlib.sha256(json.dumps(block, sort_keys=True).encode())\<close>: the hash object
      itself is returned, not its \<^verbatim>\<open>hexdigest()\<close>; \<open>i\<close> is the identity it gets\<close>
  "hash sha block i =
     (case json_dumps block of
        Inl e \<Rightarrow> Inl e
      | Inr block_string \<Rightarrow> Inr (PHash i (sha (encode block_string))))"

subsection \<open>valid_proof and proof_of_work\<close>

definition valid_proof :: "sha_fn \<Rightarrow> pyval \<Rightarrow> pyval \<Rightarrow> error + bool" where
  "valid_proof sha last_proof proof =
     (case (py_str last_proof, py_str proof) of
        (Some a, Some b) \<Rightarrow>
          (let guess = encode (a @ b);
               guess_hash = hexdigest (sha guess)
           in Inr (take 4 guess_hash = ''0000''))
      | _ \<Rightarrow> Inl Unmodelled)"

text \<open>
  The search loop of \<open>proof_of_work\<close> has no bound: a run that never finds a proof is the
  value \<open>None\<close>.
\<close>

partial_function (option) pow_loop :: "sha_fn \<Rightarrow> pyval \<Rightarrow> int \<Rightarrow> (error + int) option" where
  "pow_loop sha last_proof proof =
     (case valid_proof sha last_proof (PInt proof) of
        Inl e \<Rightarrow> Some (Inl e)
      | Inr found \<Rightarrow> if found then Some (Inr proof) else pow_loop sha last_proof (proof + 1))"

definition proof_of_work :: "sha_fn \<Rightarrow> pyval \<Rightarrow> (error + int) option" where
  "proof_of_work sha last_proof = pow_loop sha last_proof 0"

subsection \<open>The ledger\<close>

text \<open>
  The fields of a \<^verbatim>\<open>Blockchain\<close> object.  \<open>chain\<close> is a Python value and not a list of
  blocks, because \<open>resolve_conflicts\<close> stores whatever a peer sent once \<open>valid_chain\<close>
  has accepted it.  \<open>next_id\<close> is no field of the object: it counts the hash objects created
  so far, and is the identity of the next one.
\<close>

record blockchain =
  current_transactions :: "pyval list"
  chain :: pyval
  nodes :: "string set"
  next_id :: nat

definition last_block :: "blockchain \<Rightarrow> error + pyval" where
  "last_block self = py_index (chain self) (- 1)"

text \<open>
  \<open>new_block\<close>: \<open>now\<close> is what \<^verbatim>\<open>time.time()\<close> returns, and an omitted
  \<^verbatim>\<open>previous_hash\<close> is \<open>PNone\<close>.  The dict is built field by field, so
  \<^verbatim>\<open>previous_hash or self.hash(self.chain[-1])\<close> is evaluated last, and the hash only when
  \<^verbatim>\<open>previous_hash\<close> is falsy.  An exception ends the run: the model does not describe the
  state it leaves behind.
\<close>

definition new_block ::
  "sha_fn \<Rightarrow> pyfloat \<Rightarrow> pyval \<Rightarrow> pyval \<Rightarrow> blockchain \<Rightarrow> error + pyval \<times> blockchain" where
  "new_block sha now proof previous_hash self =
     (case py_len (chain self) of
        Inl e \<Rightarrow> Inl e
      | Inr n \<Rightarrow>
          (case (if truthy previous_hash then Inr (previous_hash, next_id self)
                 else (case py_index (chain self) (- 1) of
                         Inl e \<Rightarrow> Inl e
                       | Inr final \<Rightarrow>
                           (case hash sha final (next_id self) of
                              Inl e \<Rightarrow> Inl e
                            | Inr h \<Rightarrow> Inr (h, Suc (next_id self))))) of
             Inl e \<Rightarrow> Inl e
           | Inr (ph, i) \<Rightarrow>
               (let block = PDict
                      [(''index'', PInt (int n + 1)),
                       (''timestamp'', PFloat now),
                       (''transactions'', PList (current_transactions self)),
                       (''proof'', proof),
                       (''previous_hash'', ph)]
                in case chain self of
                     PList blocks \<Rightarrow>
                       Inr (block, self\<lparr>current_transactions := [],
                                        chain := PList (blocks @ [block]),
                                        next_id := i\<rparr>)
                   | _ \<Rightarrow> Inl AttributeError)))"

definition init :: "sha_fn \<Rightarrow> pyfloat \<Rightarrow> error + blockchain" where
  \<comment> \<open>\<^verbatim>\<open>Blockchain()\<close>\<close>
  "init sha now =
     map_sum id snd
       (new_block sha now (PInt 100) (PInt 1)
          \<lparr>current_transactions = [], chain = PList [], nodes = {}, next_id = 0\<rparr>)"

fun py_add1 :: "pyval \<Rightarrow> error + pyval" where
  \<comment> \<open>\<^verbatim>\<open>v + 1\<close>\<close>
  "py_add1 (PInt i) = Inr (PInt (i + 1))"
| "py_add1 (PBool b) = Inr (PInt ((if b then 1 else 0) + 1))"
| "py_add1 (PFloat x) = Inl Unmodelled"
| "py_add1 _ = Inl TypeError"

definition new_transaction ::
  "pyval \<Rightarrow> pyval \<Rightarrow> pyval \<Rightarrow> blockchain \<Rightarrow> error + pyval \<times> blockchain" where
  "new_transaction sender recipient amount self =
     (let self' = self\<lparr>current_transactions := current_transactions self @
                     [PDict [(''sender'', sender), (''recipient'', recipient), (''amount'', amount)]]\<rparr>
      in case last_block self' of
           Inl e \<Rightarrow> Inl e
         | Inr final \<Rightarrow>
             (case py_item final ''index'' of
                Inl e \<Rightarrow> Inl e
              | Inr idx \<Rightarrow> (case py_add1 idx of Inl e \<Rightarrow> Inl e | Inr r \<Rightarrow> Inr (r, self'))))"

subsection \<open>register_node\<close>

text \<open>
  \<open>urlparse_netloc\<close> is the \<^verbatim>\<open>netloc\<close> that \<^verbatim>\<open>urllib.parse.urlparse\<close> of CPython 3.11
  returns: leading control characters and blanks are stripped, tabs and line breaks removed,
  a scheme (letters, digits, \<^verbatim>\<open>+-.\<close> before the first colon, starting with a letter) is
  split off, and only if the rest starts with \<^verbatim>\<open>//\<close> is there a netloc, which ends before
  the first \<^verbatim>\<open>/\<close>, \<^verbatim>\<open>?\<close> or \<^verbatim>\<open>#\<close>.  One bracket without the other raises ValueError.
  Whether a host in brackets is accepted depends on the version of the library; the model
  does not say.  The check of the netloc under NFKC never raises on code points below 256.
\<close>

definition url_clean :: "string \<Rightarrow> string" where
  "url_clean url =
     filter (\<lambda>c. c \<noteq> CHR 0x09 \<and> c \<noteq> CHR 0x0D \<and> c \<noteq> CHR 0x0A)
       (dropWhile (\<lambda>c. (of_char c :: nat) \<le> 32) url)"

definition ascii_alpha :: "char \<Rightarrow> bool" where
  "ascii_alpha c = (let n = (of_char c :: nat) in (65 \<le> n \<and> n \<le> 90) \<or> (97 \<le> n \<and> n \<le> 122))"

definition scheme_char :: "char \<Rightarrow> bool" where
  "scheme_char c =
     (let n = (of_char c :: nat)
      in ascii_alpha c \<or> (48 \<le> n \<and> n \<le> 57) \<or> c = CHR ''+'' \<or> c = CHR ''-'' \<or> c = CHR ''.'')"

definition after_scheme :: "string \<Rightarrow> string" where
  "after_scheme url =
     (let i = length (takeWhile (\<lambda>c. c \<noteq> CHR '':'') url)
      in if i < length url \<and> 0 < i \<and> ascii_alpha (hd url) \<and> list_all scheme_char (take i url)
         then drop (i + 1) url else url)"

definition urlparse_netloc :: "string \<Rightarrow> error + string" where
  "urlparse_netloc address =
     (let url = after_scheme (url_clean address)
      in if take 2 url = ''//'' then
           (let netloc = takeWhile (\<lambda>c. c \<noteq> CHR ''/'' \<and> c \<noteq> CHR ''?'' \<and> c \<noteq> CHR ''#'') (drop 2 url);
                opening = (CHR ''['' \<in> set netloc);
                closing = (CHR '']'' \<in> set netloc)
            in if (opening \<and> \<not> closing) \<or> (closing \<and> \<not> opening) then Inl ValueError
               else if opening \<and> closing then Inl Unmodelled
               else Inr netloc)
         else Inr [])"

definition register_node :: "string \<Rightarrow> blockchain \<Rightarrow> error + blockchain" where
  "register_node address self =
     (case urlparse_netloc address of
        Inl e \<Rightarrow> Inl e
      | Inr netloc \<Rightarrow> Inr (self\<lparr>nodes := insert netloc (nodes self)\<rparr>))"

subsection \<open>valid_chain\<close>

text \<open>
  The loop of \<open>valid_chain\<close>; \<open>i\<close> is the identity of the next hash object, and the result
  carries the one after the run.  \<^verbatim>\<open>!=\<close> evaluates its left operand first.
\<close>

function vc_loop :: "sha_fn \<Rightarrow> pyval \<Rightarrow> pyval \<Rightarrow> nat \<Rightarrow> nat \<Rightarrow> error + bool \<times> nat" where
  "vc_loop sha chn final current_index i =
     (case py_len chn of
        Inl e \<Rightarrow> Inl e
      | Inr n \<Rightarrow>
          if current_index < n then
            (case py_index chn (int current_index) of
               Inl e \<Rightarrow> Inl e
             | Inr block \<Rightarrow>
                 (case py_item block ''previous_hash'' of
                    Inl e \<Rightarrow> Inl e
                  | Inr ph \<Rightarrow>
                      (case hash sha final i of
                         Inl e \<Rightarrow> Inl e
                       | Inr h \<Rightarrow>
                           if py_ne ph h then Inr (False, Suc i)
                           else
                             (case py_item final ''proof'' of
                                Inl e \<Rightarrow> Inl e
                              | Inr lp \<Rightarrow>
                                  (case py_item block ''proof'' of
                                     Inl e \<Rightarrow> Inl e
                                   | Inr p \<Rightarrow>
                                       (case valid_proof sha lp p of
                                          Inl e \<Rightarrow> Inl e
                                        | Inr ok \<Rightarrow>
                                            if \<not> ok then Inr (False, Suc i)
                                            else vc_loop sha chn block (current_index + 1) (Suc i)))))))
          else Inr (True, i))"
  by pat_completeness auto
termination
  by (relation "measure (\<lambda>(sha, chn, final, current_index, i).
        case py_len chn of Inl e \<Rightarrow> 0 | Inr n \<Rightarrow> n - current_index)") auto

declare vc_loop.simps [simp del]

definition valid_chain :: "sha_fn \<Rightarrow> pyval \<Rightarrow> nat \<Rightarrow> error + bool \<times> nat" where
  "valid_chain sha chn i =
     (case py_index chn 0 of
        Inl e \<Rightarrow> Inl e
      | Inr final \<Rightarrow> vc_loop sha chn final 1 i)"

subsection \<open>resolve_conflicts\<close>

text \<open>
  \<^verbatim>\<open>requests.get\<close> is the network: a function \<open>net\<close> from the URL to an exception or a
  response, and \<open>json\<close> of a response is \<open>None\<close> where \<^verbatim>\<open>response.json()\<close> raises.
  A Python set has no fixed iteration order: \<open>order\<close> lists the elements of
  \<^verbatim>\<open>self.nodes\<close> in the order in which the loop meets them.
\<close>

datatype response = Response (status_code: int) (json: "pyval option")

type_synonym network = "string \<Rightarrow> error + response"

definition response_json :: "response \<Rightarrow> error + pyval" where
  "response_json r = (case json r of None \<Rightarrow> Inl JSONDecodeError | Some v \<Rightarrow> Inr v)"

definition response_field :: "response \<Rightarrow> string \<Rightarrow> error + pyval" where
  \<comment> \<open>\<^verbatim>\<open>response.json()[k]\<close>\<close>
  "response_field r k = (case response_json r of Inl e \<Rightarrow> Inl e | Inr body \<Rightarrow> py_item body k)"

definition chain_url :: "string \<Rightarrow> string" where
  \<comment> \<open>\<^verbatim>\<open>f'http://{node}/chain'\<close>\<close>
  "chain_url node = ''http://'' @ node @ ''/chain''"

fun rc_loop ::
  "sha_fn \<Rightarrow> network \<Rightarrow> string list \<Rightarrow> pyval \<Rightarrow> pyval \<Rightarrow> nat \<Rightarrow> error + pyval \<times> pyval \<times> nat" where
  "rc_loop sha net [] new_chain max_length i = Inr (new_chain, max_length, i)"
| "rc_loop sha net (node # rest) new_chain max_length i =
     (case net (chain_url node) of
        Inl e \<Rightarrow> Inl e
      | Inr response \<Rightarrow>
          if status_code response = 200 then
            (case response_field response ''length'' of
               Inl e \<Rightarrow> Inl e
             | Inr len \<Rightarrow>
                 (case response_field response ''chain'' of
                    Inl e \<Rightarrow> Inl e
                  | Inr chn \<Rightarrow>
                      (case py_gt len max_length of
                         Inl e \<Rightarrow> Inl e
                       | Inr longer \<Rightarrow>
                           if longer then
                             (case valid_chain sha chn i of
                                Inl e \<Rightarrow> Inl e
                              | Inr (ok, i') \<Rightarrow>
                                  if ok then rc_loop sha net rest chn len i'
                                  else rc_loop sha net rest new_chain max_length i')
                           else rc_loop sha net rest new_chain max_length i)))
          else rc_loop sha net rest new_chain max_length i)"

definition resolve_conflicts ::
  "sha_fn \<Rightarrow> network \<Rightarrow> string list \<Rightarrow> blockchain \<Rightarrow> error + bool \<times> blockchain" where
  "resolve_conflicts sha net order self =
     (case py_len (chain self) of
        Inl e \<Rightarrow> Inl e
      | Inr n \<Rightarrow>
          (case rc_loop sha net order PNone (PInt (int n)) (next_id self) of
             Inl e \<Rightarrow> Inl e
           | Inr (new_chain, max_length, i) \<Rightarrow>
               if truthy new_chain then Inr (True, self\<lparr>chain := new_chain, next_id := i\<rparr>)
               else Inr (False, self\<lparr>next_id := i\<rparr>)))"

section \<open>The module: the mine operation\<close>

text \<open>
  The names the module binds before a request can reach \<open>mine\<close>.  Reading any other global
  name raises NameError.
\<close>

definition module_names :: "string list" where
  "module_names =
     [''hashlib'', ''json'', ''time'', ''dedent'', ''uuid4'', ''Flask'', ''jsonify'', ''request'',
      ''urlparse'', ''requests'', ''Blockchain'', ''app'', ''node_identifier'', ''blockchain'',
      ''mine'', ''new_transaction'', ''full_chain'', ''register_nodes'', ''consensus'']"

definition global_name :: "string \<Rightarrow> error + unit" where
  "global_name x = (if x \<in> set module_names then Inr () else Inl (NameError x))"

text \<open>
  \<open>mine\<close> reads \<^verbatim>\<open>block_chain\<close> and \<^verbatim>\<open>previous_hast\<close>, as the source spells them; the other
  names stand for the module's \<^verbatim>\<open>blockchain\<close> (here \<open>self\<close>) and \<^verbatim>\<open>node_identifier\<close>.
  The result is the block of the response and the ledger after the request, \<open>None\<close> if the
  proof search never ends.
\<close>

definition mine ::
  "sha_fn \<Rightarrow> pyfloat \<Rightarrow> string \<Rightarrow> blockchain \<Rightarrow> (error + pyval \<times> blockchain) option" where
  "mine sha now node_identifier self =
     (case global_name ''block_chain'' of
        Inl e \<Rightarrow> Some (Inl e)
      | Inr _ \<Rightarrow>
     (case last_block self of
        Inl e \<Rightarrow> Some (Inl e)
      | Inr final \<Rightarrow>
     (case py_item final ''proof'' of
        Inl e \<Rightarrow> Some (Inl e)
      | Inr last_proof \<Rightarrow>
     (case proof_of_work sha last_proof of
        None \<Rightarrow> None
      | Some (Inl e) \<Rightarrow> Some (Inl e)
      | Some (Inr proof) \<Rightarrow>
     (case new_transaction (PStr ''0'') (PStr node_identifier) (PInt 1) self of
        Inl e \<Rightarrow> Some (Inl e)
      | Inr (idx, self1) \<Rightarrow>
     (case hash sha final (next_id self1) of
        Inl e \<Rightarrow> Some (Inl e)
      | Inr previous_hash \<Rightarrow>
     (case global_name ''previous_hast'' of
        Inl e \<Rightarrow> Some (Inl e)
      | Inr _ \<Rightarrow>
          Some (new_block sha now (PInt proof) previous_hash
                  (self1\<lparr>next_id := Suc (next_id self1)\<rparr>)))))))))"

section \<open>Runs and inputs the properties speak about\<close>

text \<open>
  \<open>build\<close> is a ledger made by \<^verbatim>\<open>Blockchain()\<close> followed by calls of
  \<^verbatim>\<open>new_block(proof)\<close> with \<^verbatim>\<open>previous_hash\<close> omitted; each call comes with the time
  it reads.  \<open>check_built\<close> applies \<open>valid_chain\<close> to the chain of such a ledger.
\<close>

fun new_blocks :: "sha_fn \<Rightarrow> (pyfloat \<times> pyval) list \<Rightarrow> blockchain \<Rightarrow> error + blockchain" where
  "new_blocks sha [] self = Inr self"
| "new_blocks sha ((now, proof) # calls) self =
     (case new_block sha now proof PNone self of
        Inl e \<Rightarrow> Inl e
      | Inr (block, self') \<Rightarrow> new_blocks sha calls self')"

definition build :: "sha_fn \<Rightarrow> pyfloat \<Rightarrow> (pyfloat \<times> pyval) list \<Rightarrow> error + blockchain" where
  "build sha start calls =
     (case init sha start of Inl e \<Rightarrow> Inl e | Inr self \<Rightarrow> new_blocks sha calls self)"

definition check_built :: "sha_fn \<Rightarrow> pyfloat \<Rightarrow> (pyfloat \<times> pyval) list \<Rightarrow> error + bool \<times> nat" where
  "check_built sha start calls =
     (case build sha start calls of
        Inl e \<Rightarrow> Inl e
      | Inr self \<Rightarrow> valid_chain sha (chain self) (next_id self))"

text \<open>
  The states a ledger reaches by construction, \<open>new_block\<close> and \<open>new_transaction\<close>.
\<close>

inductive reachable :: "sha_fn \<Rightarrow> blockchain \<Rightarrow> bool" for sha :: sha_fn where
  constructed: "init sha now = Inr self \<Longrightarrow> reachable sha self"
| block_added: "reachable sha self \<Longrightarrow> new_block sha now proof previous_hash self = Inr (block, self')
     \<Longrightarrow> reachable sha self'"
| transaction_added: "reachable sha self \<Longrightarrow> new_transaction sender recipient amount self = Inr (idx, self')
     \<Longrightarrow> reachable sha self'"

text \<open>
  In a reachable ledger the chain is a non-empty list whose last block carries its own
  position as \<^verbatim>\<open>index\<close>.
\<close>

definition indexed :: "blockchain \<Rightarrow> bool" where
  "indexed self = (\<exists>bs. chain self = PList bs \<and> bs \<noteq> []
                      \<and> py_item (last bs) ''index'' = Inr (PInt (int (length bs))))"

text \<open>
  What a peer's JSON decodes to holds no hash object.  A block is well formed when it is a
  dict with the two fields that \<open>valid_chain\<close> reads.
\<close>

fun json_value :: "pyval \<Rightarrow> bool"
  and json_values :: "pyval list \<Rightarrow> bool"
  and json_members :: "(string \<times> pyval) list \<Rightarrow> bool" where
  "json_value (PHash i d) = False"
| "json_value (PList xs) = json_values xs"
| "json_value (PDict kvs) = json_members kvs"
| "json_value v = True"
| "json_values [] = True"
| "json_values (x # xs) = (json_value x \<and> json_values xs)"
| "json_members [] = True"
| "json_members ((k, v) # kvs) = (json_value v \<and> json_members kvs)"

definition has_fields :: "pyval \<Rightarrow> bool" where
  "has_fields block =
     (case block of
        PDict kvs \<Rightarrow> map_of kvs ''previous_hash'' \<noteq> None \<and> map_of kvs ''proof'' \<noteq> None
      | _ \<Rightarrow> False)"

text \<open>A digest function to run the model on: every digest is zero, so every proof is valid.\<close>

definition zero_sha :: sha_fn where
  "zero_sha m = 0"

definition t0 :: pyfloat where
  "t0 = Float 1700000000 ''1700000000.0''"

definition genesis :: pyval where
  \<comment> \<open>the first block of a ledger constructed at \<open>t0\<close>\<close>
  "genesis = PDict
     [(''index'', PInt 1), (''timestamp'', PFloat t0), (''transactions'', PList []),
      (''proof'', PInt 100), (''previous_hash'', PInt 1)]"

definition fresh :: blockchain where
  \<comment> \<open>the ledger constructed at \<open>t0\<close>\<close>
  "fresh = \<lparr>current_transactions = [], chain = PList [genesis], nodes = {}, next_id = 0\<rparr>"

definition second :: pyval where
  \<comment> \<open>the block that \<^verbatim>\<open>new_block(0)\<close> adds to \<open>fresh\<close> at \<open>t0\<close> under \<open>zero_sha\<close>\<close>
  "second = PDict
     [(''index'', PInt 2), (''timestamp'', PFloat t0), (''transactions'', PList []),
      (''proof'', PInt 0), (''previous_hash'', PHash 0 0)]"

definition grown :: blockchain where
  "grown = \<lparr>current_transactions = [], chain = PList [genesis, second], nodes = {}, next_id = 1\<rparr>"

definition peered :: blockchain where
  \<comment> \<open>\<open>fresh\<close> after the peers \<^verbatim>\<open>http://a\<close> and \<^verbatim>\<open>http://b\<close> were registered\<close>
  "peered = fresh\<lparr>nodes := {''a'', ''b''}\<rparr>"

definition down :: network where
  \<comment> \<open>no peer can be reached\<close>
  "down url = Inl ConnectionError"

definition forged :: pyval where
  \<comment> \<open>a block a peer made up\<close>
  "forged = PDict
     [(''index'', PInt 1), (''timestamp'', PFloat t0), (''transactions'', PList []),
      (''proof'', PInt 7), (''previous_hash'', PStr ''x'')]"

definition lying :: "nat \<Rightarrow> network" where
  \<comment> \<open>every peer answers with a chain of one block and reports the length \<open>n + 1\<close>\<close>
  "lying n url =
     Inr (Response 200 (Some (PDict [(''chain'', PList [forged]), (''length'', PInt (int n + 1))])))"

definition half :: network where
  \<comment> \<open>the peer \<^verbatim>\<open>a\<close> cannot be reached, every other peer answers as under \<open>lying 1\<close>\<close>
  "half url = (if url = chain_url ''a'' then Inl ConnectionError else lying 1 url)"

definition mixed :: network where
  \<comment> \<open>the peer \<^verbatim>\<open>a\<close> answers 503, every other peer as under \<open>lying 1\<close>\<close>
  "mixed url = (if url = chain_url ''a'' then Inr (Response 503 None) else lying 1 url)"

section \<open>Properties\<close>

lemma init_eq:
  "init sha now = Inr \<lparr>current_transactions = [],
     chain = PList [PDict [(''index'', PInt 1), (''timestamp'', PFloat now), (''transactions'', PList []),
                           (''proof'', PInt 100), (''previous_hash'', PInt 1)]],
     nodes = {}, next_id = 0\<rparr>"
  by (simp add: init_def new_block_def Let_def)

lemma init_fresh: "init sha t0 = Inr fresh"
  by (simp add: init_eq fresh_def genesis_def)

lemma json_members_iff: "json_members kvs \<longleftrightarrow> (\<forall>(k, v) \<in> set kvs. json_value v)"
  by (induction kvs) auto

lemma json_values_iff: "json_values xs \<longleftrightarrow> (\<forall>v \<in> set xs. json_value v)"
  by (induction xs) auto

lemma json_dumps_total:
  "json_value v \<Longrightarrow> \<exists>t. json_dumps v = Inr t"
  "json_values xs \<Longrightarrow> \<exists>ts. json_list xs = Inr ts"
  "json_members kvs \<Longrightarrow> \<exists>ts. json_items kvs = Inr ts"
proof (induction v and xs and kvs rule: json_dumps_json_list_json_items.induct)
  case (7 kvs)
  then have "json_members (sort_key fst kvs)"
    by (simp add: json_members_iff)
  with 7 show ?case by auto
qed auto

lemma hash_total: "json_value v \<Longrightarrow> \<exists>d. hash sha v i = Inr (PHash i d)"
  using json_dumps_total(1) [of v] by (auto simp: hash_def)

lemma hash_result: "hash sha v i = Inr h \<Longrightarrow> \<exists>d. h = PHash i d"
  by (auto simp: hash_def split: sum.splits)

lemma py_eq_hash: "py_eq a (PHash i d) \<longleftrightarrow> (\<exists>e. a = PHash i e)"
  by (cases a) auto

lemma json_value_item: "json_value b \<Longrightarrow> py_item b k = Inr v \<Longrightarrow> json_value v"
  by (cases b) (auto simp: json_members_iff split: option.splits dest!: map_of_SomeD)

lemma vc_empty: "valid_chain sha (PList []) i = Inl IndexError"
  by (simp add: valid_chain_def seq_index_def)

lemma vc_single: "valid_chain sha (PList [b]) i = Inr (True, i)"
  by (simp add: valid_chain_def seq_index_def vc_loop.simps)

lemma vc_loop_step:
  assumes "vc_loop sha (PList bs) final k i = Inr (True, n)" "k < length bs"
  shows "\<exists>lp p. py_item final ''proof'' = Inr lp \<and> py_item (bs ! k) ''proof'' = Inr p
           \<and> valid_proof sha lp p = Inr True
           \<and> vc_loop sha (PList bs) (bs ! k) (Suc k) (Suc i) = Inr (True, n)"
  using assms
  by (subst (asm) vc_loop.simps) (auto simp: seq_index_def split: sum.splits if_splits)

lemma vc_loop_true:
  assumes "vc_loop sha (PList bs) final k i = Inr (True, n)" "k \<le> j" "j < length bs"
  shows "\<exists>lp p. py_item (if j = k then final else bs ! (j - 1)) ''proof'' = Inr lp
           \<and> py_item (bs ! j) ''proof'' = Inr p \<and> valid_proof sha lp p = Inr True"
  using assms
proof (induction "j - k" arbitrary: k final i)
  case 0
  then have "j = k" by simp
  with vc_loop_step [OF "0.prems"(1)] "0.prems" show ?case by auto
next
  case (Suc d)
  then have lt: "k < length bs" and d: "d = j - Suc k" and le: "Suc k \<le> j" by auto
  from vc_loop_step [OF Suc.prems(1) lt]
  have nxt: "vc_loop sha (PList bs) (bs ! k) (Suc k) (Suc i) = Inr (True, n)" by auto
  from Suc.hyps(1) [OF d nxt le Suc.prems(3)] le show ?case
    by (auto split: if_splits)
qed

lemma valid_chain_true:
  assumes "valid_chain sha (PList bs) i = Inr (True, n)" "Suc k < length bs"
  shows "\<exists>lp p. py_item (bs ! k) ''proof'' = Inr lp \<and> py_item (bs ! Suc k) ''proof'' = Inr p
           \<and> valid_proof sha lp p = Inr True"
proof -
  from assms have v: "vc_loop sha (PList bs) (bs ! 0) 1 i = Inr (True, n)"
    by (auto simp: valid_chain_def seq_index_def split: sum.splits if_splits)
  from vc_loop_true [OF v, of "Suc k"] assms(2) show ?thesis
    by (cases k) auto
qed

lemma valid_chain_json:
  assumes "bs \<noteq> []" "json_values bs" "list_all has_fields (tl bs)"
  shows "\<exists>ok n. valid_chain sha (PList bs) i = Inr (ok, n)"
proof (cases bs)
  case Nil
  with assms show ?thesis by simp
next
  case (Cons g rest)
  show ?thesis
  proof (cases rest)
    case Nil
    with \<open>bs = g # rest\<close> have "valid_chain sha (PList bs) i = Inr (True, i)"
      by (simp add: vc_single)
    then show ?thesis by blast
  next
    case (Cons b rest')
    with \<open>bs = g # rest\<close> assms have jg: "json_value g" and jb: "json_value b" and hb: "has_fields b"
      by auto
    from hb obtain ph where ph: "py_item b ''previous_hash'' = Inr ph"
      by (auto simp: has_fields_def split: pyval.splits)
    with jb have "json_value ph" by (rule json_value_item)
    then have ne: "\<And>j d. py_ne ph (PHash j d)"
      by (auto simp: py_ne_def py_eq_hash)
    from hash_total [OF jg] obtain d where h: "hash sha g i = Inr (PHash i d)" by blast
    have "valid_chain sha (PList bs) i = Inr (False, Suc i)"
      using \<open>bs = g # rest\<close> Cons ph h ne
      by (simp add: valid_chain_def seq_index_def vc_loop.simps [of _ _ _ "Suc 0"])
    then show ?thesis by blast
  qed
qed

lemma rc_loop_skip:
  assumes "net (chain_url node) = Inr r" "status_code r \<noteq> 200"
  shows "rc_loop sha net (pre @ node # post) nc ml i = rc_loop sha net (pre @ post) nc ml i"
proof (induction pre arbitrary: nc ml i)
  case Nil
  with assms show ?case by simp
next
  case (Cons p pre)
  then show ?case
    by (simp split: sum.splits prod.splits)
qed

lemma rc_loop_raise:
  "net (chain_url node) = Inl e \<Longrightarrow> rc_loop sha net (node # rest) nc ml i = Inl e"
  by simp

lemma lying_adopted:
  "rc_loop sha (lying n) [peer] PNone (PInt (int n)) i = Inr (PList [forged], PInt (int n + 1), i)"
  by (simp add: lying_def response_field_def response_json_def py_gt_def vc_single)

lemma seq_index_last: "seq_index xs (- 1) = (if xs = [] then Inl IndexError else Inr (last xs))"
proof (cases xs rule: rev_cases)
  case Nil
  then show ?thesis by (simp add: seq_index_def)
next
  case (snoc ys y)
  then show ?thesis by (simp add: seq_index_def)
qed

lemma new_block_result:
  assumes "new_block sha now proof previous_hash self = Inr (block, self')"
  shows "\<exists>bs ph. chain self = PList bs
           \<and> block = PDict [(''index'', PInt (int (length bs) + 1)), (''timestamp'', PFloat now),
                            (''transactions'', PList (current_transactions self)),
                            (''proof'', proof), (''previous_hash'', ph)]
           \<and> chain self' = PList (bs @ [block]) \<and> current_transactions self' = []
           \<and> nodes self' = nodes self
           \<and> (if truthy previous_hash then ph = previous_hash \<and> next_id self' = next_id self
               else last_block self = Inr (last bs) \<and> bs \<noteq> []
                    \<and> hash sha (last bs) (next_id self) = Inr ph \<and> next_id self' = Suc (next_id self))"
  using assms
  by (cases "chain self")
     (auto simp: new_block_def Let_def last_block_def seq_index_last
           split: sum.splits if_splits)

lemma reachable_indexed: "reachable sha self \<Longrightarrow> indexed self"
proof (induction rule: reachable.induct)
  case (constructed now self)
  then show ?case by (auto simp: init_eq indexed_def)
next
  case (block_added self now p previous_hash block self')
  from new_block_result [OF block_added.hyps(2)] show ?case
    by (auto simp: indexed_def)
next
  case (transaction_added self sender recipient amount idx self')
  then show ?case
    by (auto simp: indexed_def new_transaction_def Let_def split: sum.splits)
qed

text \<open>
  C7.  In every ledger reached by construction, \<open>new_block\<close> and \<open>new_transaction\<close>,
  \<open>new_transaction\<close> appends the transaction to the pending pool, changes nothing else, and
  returns the length of the chain plus 1.
\<close>

theorem new_transaction_index:
  assumes "reachable sha self"
  shows "\<exists>n. py_len (chain self) = Inr n
           \<and> new_transaction sender recipient amount self =
               Inr (PInt (int n + 1),
                    self\<lparr>current_transactions := current_transactions self @
                       [PDict [(''sender'', sender), (''recipient'', recipient), (''amount'', amount)]]\<rparr>)"
proof -
  from reachable_indexed [OF assms] obtain bs where
    "chain self = PList bs" "bs \<noteq> []" "py_item (last bs) ''index'' = Inr (PInt (int (length bs)))"
    by (auto simp: indexed_def)
  then show ?thesis
    by (simp add: new_transaction_def Let_def last_block_def seq_index_last)
qed

theorem new_transaction_index_witness:
  "reachable zero_sha fresh
   \<and> py_len (chain fresh) = Inr 1
   \<and> new_transaction (PStr ''a'') (PStr ''b'') (PInt 5) fresh =
       Inr (PInt 2, fresh\<lparr>current_transactions :=
          [PDict [(''sender'', PStr ''a''), (''recipient'', PStr ''b''), (''amount'', PInt 5)]]\<rparr>)"
proof -
  have r: "reachable zero_sha fresh"
    by (rule reachable.constructed [of _ t0]) (rule init_fresh)
  from new_transaction_index [OF r, of "PStr ''a''" "PStr ''b''" "PInt 5"] r show ?thesis
    by (simp add: fresh_def)
qed

text \<open>
  C8.  \<open>new_block\<close> treats a falsy \<^verbatim>\<open>previous_hash\<close> as absent: 0 and the empty string
  are falsy, and with a falsy argument the block's \<^verbatim>\<open>previous_hash\<close> is what \<open>hash\<close> returns
  for the last block, not the argument, exactly as when the argument is omitted; a truthy
  argument is stored as given.
\<close>

theorem new_block_previous_hash:
  assumes "new_block sha now proof previous_hash self = Inr (block, self')"
  shows "\<not> truthy (PInt 0) \<and> \<not> truthy (PStr [])
         \<and> (if truthy previous_hash then py_item block ''previous_hash'' = Inr previous_hash
            else \<exists>final h. last_block self = Inr final \<and> hash sha final (next_id self) = Inr h
                   \<and> py_item block ''previous_hash'' = Inr h \<and> h \<noteq> previous_hash
                   \<and> new_block sha now proof PNone self = Inr (block, self'))"
proof (cases "truthy previous_hash")
  case True
  with new_block_result [OF assms] show ?thesis by auto
next
  case False
  have same: "new_block sha now proof PNone self = new_block sha now proof previous_hash self"
    using False by (simp add: new_block_def)
  from new_block_result [OF assms] False obtain bs ph where
    "last_block self = Inr (last bs)" "hash sha (last bs) (next_id self) = Inr ph"
    "py_item block ''previous_hash'' = Inr ph"
    by auto
  moreover from this(2) False have "ph \<noteq> previous_hash"
    by (auto dest: hash_result)
  ultimately show ?thesis using False same assms by auto
qed

text \<open>
  C6.  The claim: after \<open>k\<close> submitted transactions, mining appends one block that holds
  them and the reward, and empties the pool.  The first statement of \<open>mine\<close> reads the
  name \<^verbatim>\<open>block_chain\<close>, which the module never binds: every run of \<open>mine\<close> ends there with
  NameError, whatever the ledger, and appends nothing.
\<close>

theorem mine_raises: "mine sha now node_identifier self = Some (Inl (NameError ''block_chain''))"
  by (simp add: mine_def global_name_def module_names_def)

lemma json_genesis: "json_value genesis" "json_value forged"
  by (simp_all add: genesis_def forged_def)

lemma hash_zero: "json_value v \<Longrightarrow> hash zero_sha v i = Inr (PHash i 0)"
  using hash_total [of v zero_sha i] by (auto simp: hash_def zero_sha_def split: sum.splits)

lemma new_block_fresh: "new_block zero_sha t0 (PInt 0) PNone fresh = Inr (second, grown)"
  by (simp add: new_block_def fresh_def seq_index_last hash_zero json_genesis second_def grown_def Let_def)

lemma build_grown: "build zero_sha t0 [(t0, PInt 0)] = Inr grown"
  by (simp add: build_def init_fresh new_block_fresh)

theorem built_chain_rejected: "check_built zero_sha t0 [(t0, PInt 0)] = Inr (False, 2)"
  by (simp add: check_built_def build_grown grown_def valid_chain_def seq_index_def
        vc_loop.simps [of _ _ _ "Suc 0"] second_def hash_zero json_genesis py_ne_def)

lemma json_error:
  "json_dumps v = Inl e \<Longrightarrow> e = TypeError"
  "json_list xs = Inl e \<Longrightarrow> e = TypeError"
  "json_items kvs = Inl e \<Longrightarrow> e = TypeError"
  by (induction v and xs and kvs rule: json_dumps_json_list_json_items.induct)
     (auto split: sum.splits)

lemma json_items_hash:
  "(k, PHash j d) \<in> set kvs \<Longrightarrow> \<exists>e. json_items kvs = Inl e"
  by (induction kvs) (auto split: sum.splits)

lemma json_dumps_hash_member:
  assumes "(k, PHash j d) \<in> set kvs"
  shows "json_dumps (PDict kvs) = Inl TypeError"
proof -
  from assms have "(k, PHash j d) \<in> set (sort_key fst kvs)" by simp
  from json_items_hash [OF this] obtain e where e: "json_items (sort_key fst kvs) = Inl e" ..
  with json_error(3) [OF e] show ?thesis by simp
qed

text \<open>
  C2.  The claim: hashing a block twice, also after rebuilding it with its fields in another
  order, gives the same digest value, for every block.  The code returns the hash object and
  not its digest, so a block that \<open>new_block\<close> built with \<^verbatim>\<open>previous_hash\<close> omitted holds a
  hash object, and \<open>hash\<close> of such a block raises TypeError: there is no digest at all.
\<close>

theorem hash_of_built_block:
  assumes "new_block sha now proof PNone self = Inr (block, self')"
  shows "hash sha block i = Inl TypeError"
proof -
  from new_block_result [OF assms] obtain bs ph where
    b: "block = PDict [(''index'', PInt (int (length bs) + 1)), (''timestamp'', PFloat now),
                       (''transactions'', PList (current_transactions self)),
                       (''proof'', proof), (''previous_hash'', ph)]"
    and h: "hash sha (last bs) (next_id self) = Inr ph"
    by auto
  from hash_result [OF h] obtain d where "ph = PHash (next_id self) d" ..
  with b have "(''previous_hash'', PHash (next_id self) d) \<in> set (case block of PDict kvs \<Rightarrow> kvs)"
    by simp
  with b have "json_dumps block = Inl TypeError"
    by (auto intro: json_dumps_hash_member)
  then show ?thesis by (simp add: hash_def)
qed

theorem hash_of_built_block_witness:
  "new_block zero_sha t0 (PInt 0) PNone fresh = Inr (second, grown)
   \<and> hash zero_sha second 1 = Inl TypeError"
  using hash_of_built_block [OF new_block_fresh, of 1] new_block_fresh by simp

lemma hash_twice:
  "hash sha block i = Inr h \<Longrightarrow> hash sha block (Suc i) = Inr h' \<Longrightarrow> py_ne h h'"
  by (auto simp: hash_def py_ne_def split: sum.splits)

theorem new_block_previous_hash_witness:
  "new_block zero_sha t0 (PInt 0) (PInt 0) fresh = Inr (second, grown)
   \<and> \<not> truthy (PInt 0)
   \<and> last_block fresh = Inr genesis \<and> hash zero_sha genesis (next_id fresh) = Inr (PHash 0 0)
   \<and> py_item second ''previous_hash'' = Inr (PHash 0 0)"
proof -
  have nb: "new_block zero_sha t0 (PInt 0) (PInt 0) fresh = Inr (second, grown)"
    by (simp add: new_block_def fresh_def seq_index_last hash_zero json_genesis second_def grown_def Let_def)
  from new_block_previous_hash [OF nb] nb show ?thesis
    by (simp add: fresh_def last_block_def seq_index_last hash_zero json_genesis second_def)
qed

text \<open>
  The claim that \<open>valid_chain\<close> never raises fails on the empty list.
\<close>

theorem valid_chain_empty_raises: "valid_chain zero_sha (PList []) 0 = Inl IndexError"
  by (simp add: valid_chain_def seq_index_def)

lemma valid_chain_missing_previous_hash:
  "py_item b ''previous_hash'' = Inl e \<Longrightarrow> valid_chain sha (PList (g # b # rest)) i = Inl e"
  by (simp add: valid_chain_def seq_index_def vc_loop.simps [of _ _ _ "Suc 0"])

text \<open>
  C4, as amended.  \<open>valid_chain\<close> returns a boolean for every non-empty list of JSON values
  whose elements are dicts that carry both \<^verbatim>\<open>previous_hash\<close> and \<^verbatim>\<open>proof\<close>.  It raises
  IndexError on the empty list, and the exception of the lookup (KeyError, or TypeError
  when the element is no dict) when the second element has no \<^verbatim>\<open>previous_hash\<close>.
\<close>

theorem valid_chain_returns:
  "(bs \<noteq> [] \<and> json_values bs \<and> list_all has_fields bs
      \<longrightarrow> (\<exists>ok n. valid_chain sha (PList bs) i = Inr (ok, n)))
   \<and> valid_chain sha (PList []) i = Inl IndexError
   \<and> (py_item b ''previous_hash'' = Inl e \<longrightarrow> valid_chain sha (PList (g # b # rest)) i = Inl e)"
proof -
  have "list_all has_fields bs \<Longrightarrow> list_all has_fields (tl bs)"
    by (cases bs) auto
  then show ?thesis
    using valid_chain_json [of bs sha i] vc_empty valid_chain_missing_previous_hash by blast
qed

theorem valid_chain_returns_witness:
  "[genesis, forged] \<noteq> [] \<and> json_values [genesis, forged] \<and> list_all has_fields [genesis, forged]
   \<and> (\<exists>ok n. valid_chain zero_sha (PList [genesis, forged]) 0 = Inr (ok, n))
   \<and> py_item (PDict [(''proof'', PInt 7)]) ''previous_hash'' = Inl KeyError
   \<and> valid_chain zero_sha (PList [genesis, PDict [(''proof'', PInt 7)]]) 0 = Inl KeyError"
proof -
  have a: "[genesis, forged] \<noteq> [] \<and> json_values [genesis, forged] \<and> list_all has_fields [genesis, forged]"
    by (simp add: genesis_def forged_def has_fields_def)
  have b: "py_item (PDict [(''proof'', PInt 7)]) ''previous_hash'' = Inl KeyError"
    by simp
  from valid_chain_returns [of "[genesis, forged]" zero_sha 0 "PDict [(''proof'', PInt 7)]" KeyError genesis "[]"] a b
  show ?thesis by blast
qed

lemma hexdigest_zero: "hexdigest 0 = replicate 64 (CHR ''0'')"
proof -
  have "hexdigest 0 = map (\<lambda>i. CHR ''0'') (rev [0..<64])"
    by (simp add: hexdigest_def digit_char_def)
  then show ?thesis by (simp add: map_replicate_const)
qed

lemma zero_sha_all_valid: "valid_proof zero_sha (PInt a) (PInt b) = Inr True"
proof -
  have "take 4 (replicate 64 (CHR ''0'')) = replicate 4 (CHR ''0'')" by simp
  also have "replicate 4 (CHR ''0'') = ''0000''" by (simp add: eval_nat_numeral)
  finally show ?thesis by (simp add: valid_proof_def zero_sha_def hexdigest_zero Let_def)
qed

text \<open>
  C1.  The claim: every chain built by \<open>new_block\<close> alone on a fresh ledger, with
  \<^verbatim>\<open>previous_hash\<close> omitted, passes \<open>valid_chain\<close>.  \<open>hash\<close> returns the hash object and
  not its digest; \<open>new_block\<close> stores that object, and \<open>valid_chain\<close> compares it with a
  hash object made anew, which is another object.  So whatever the digest function, the
  times and the proofs (valid ones too), the chain after one call is rejected, and a second
  call raises TypeError because the last block cannot be encoded.
\<close>

theorem built_chain_fails:
  "check_built sha start [(now, p)] = Inr (False, 2)
   \<and> check_built sha start ((now, p) # c # calls) = Inl TypeError"
proof -
  let ?g = "PDict [(''index'', PInt 1), (''timestamp'', PFloat start), (''transactions'', PList []),
                   (''proof'', PInt 100), (''previous_hash'', PInt 1)]"
  let ?s0 = "\<lparr>current_transactions = [], chain = PList [?g], nodes = {}, next_id = 0\<rparr>"
  have jg: "json_value ?g" by simp
  from hash_total [OF jg, of sha 0] obtain d where h0: "hash sha ?g 0 = Inr (PHash 0 d)" ..
  from hash_total [OF jg, of sha "Suc 0"] obtain d' where
    h1: "hash sha ?g (Suc 0) = Inr (PHash (Suc 0) d')" ..
  let ?b = "PDict [(''index'', PInt 2), (''timestamp'', PFloat now), (''transactions'', PList []),
                   (''proof'', p), (''previous_hash'', PHash 0 d)]"
  let ?s1 = "\<lparr>current_transactions = [], chain = PList [?g, ?b], nodes = {}, next_id = Suc 0\<rparr>"
  have nb: "new_block sha now p PNone ?s0 = Inr (?b, ?s1)"
    by (simp add: new_block_def seq_index_last h0 Let_def)
  have v: "valid_chain sha (PList [?g, ?b]) (Suc 0) = Inr (False, 2)"
    by (simp add: valid_chain_def seq_index_def vc_loop.simps [of _ _ _ "Suc 0"] h1 py_ne_def
          numeral_2_eq_2)
  have one: "check_built sha start [(now, p)] = Inr (False, 2)"
    by (simp add: check_built_def build_def init_eq nb v)
  have "json_dumps ?b = Inl TypeError"
    by (rule json_dumps_hash_member [of "''previous_hash''" 0 d]) simp
  then have hb: "hash sha ?b (Suc 0) = Inl TypeError"
    by (simp add: hash_def)
  obtain now' p' where c: "c = (now', p')" by (cases c)
  have "new_block sha now' p' PNone ?s1 = Inl TypeError"
    by (simp add: new_block_def seq_index_last hb)
  then have "build sha start ((now, p) # c # calls) = Inl TypeError"
    by (simp add: build_def init_eq nb c)
  then have more: "check_built sha start ((now, p) # c # calls) = Inl TypeError"
    by (simp add: check_built_def)
  from one more show ?thesis ..
qed

lemma resolve_skip:
  assumes "net (chain_url node) = Inr r" "status_code r \<noteq> 200"
  shows "resolve_conflicts sha net (pre @ node # post) self = resolve_conflicts sha net (pre @ post) self"
  by (simp add: resolve_conflicts_def rc_loop_skip [where net = net and node = node and r = r, OF assms]
        split: sum.splits)

lemma rc_loop_append:
  "rc_loop sha net (xs @ ys) nc ml i =
     (case rc_loop sha net xs nc ml i of
        Inl e \<Rightarrow> Inl e
      | Inr (nc', ml', i') \<Rightarrow> rc_loop sha net ys nc' ml' i')"
  by (induction xs arbitrary: nc ml i) (auto split: sum.splits prod.splits)

lemma resolve_raise:
  assumes "net (chain_url node) = Inl e"
  shows "(\<exists>e'. resolve_conflicts sha net (pre @ node # post) self = Inl e')
         \<and> (\<forall>res. resolve_conflicts sha net pre self = Inr res
               \<longrightarrow> resolve_conflicts sha net (pre @ node # post) self = Inl e)"
proof (cases "py_len (chain self)")
  case (Inl e0)
  then show ?thesis by (simp add: resolve_conflicts_def)
next
  case (Inr n)
  show ?thesis
  proof (cases "rc_loop sha net pre PNone (PInt (int n)) (next_id self)")
    case (Inl e1)
    with Inr show ?thesis by (simp add: resolve_conflicts_def rc_loop_append)
  next
    case (Inr s)
    obtain nc ml i where s: "s = (nc, ml, i)" by (cases s)
    with Inr \<open>py_len (chain self) = Inr n\<close> assms show ?thesis
      by (simp add: resolve_conflicts_def rc_loop_append)
  qed
qed

text \<open>
  C5, as amended.  A peer that answers with a status other than 200 is skipped:
  \<open>resolve_conflicts\<close> gives what it gives without that peer, so a valid longer chain of
  another peer is still adopted.  A peer whose fetch raises is not skipped: wherever the
  loop meets it, \<open>resolve_conflicts\<close> raises and adopts nothing, and the exception is that
  peer's when the peers met before it were handled without one.
\<close>

theorem peer_failures:
  "(net (chain_url node) = Inr r \<and> status_code r \<noteq> 200
      \<longrightarrow> resolve_conflicts sha net (pre @ node # post) self =
          resolve_conflicts sha net (pre @ post) self)
   \<and> (net (chain_url node) = Inl e
      \<longrightarrow> (\<exists>e'. resolve_conflicts sha net (pre @ node # post) self = Inl e')
          \<and> (\<forall>res. resolve_conflicts sha net pre self = Inr res
                \<longrightarrow> resolve_conflicts sha net (pre @ node # post) self = Inl e))"
proof (rule conjI)
  show "net (chain_url node) = Inr r \<and> status_code r \<noteq> 200
      \<longrightarrow> resolve_conflicts sha net (pre @ node # post) self =
          resolve_conflicts sha net (pre @ post) self"
    by (simp add: resolve_skip)
  show "net (chain_url node) = Inl e
      \<longrightarrow> (\<exists>e'. resolve_conflicts sha net (pre @ node # post) self = Inl e')
          \<and> (\<forall>res. resolve_conflicts sha net pre self = Inr res
                \<longrightarrow> resolve_conflicts sha net (pre @ node # post) self = Inl e)"
    by (rule impI) (rule resolve_raise)
qed

lemma resolve_lying:
  assumes "chain self = PList bs"
  shows "resolve_conflicts sha (lying (length bs)) [peer] self =
           Inr (True, self\<lparr>chain := PList [forged], next_id := next_id self\<rparr>)"
  using assms by (simp add: resolve_conflicts_def lying_adopted del: rc_loop.simps)

lemma peered_registered:
  "register_node ''http://a'' fresh = Inr (fresh\<lparr>nodes := {''a''}\<rparr>)"
  "register_node ''http://b'' (fresh\<lparr>nodes := {''a''}\<rparr>) = Inr peered"
  by (auto simp: register_node_def urlparse_netloc_def url_clean_def after_scheme_def ascii_alpha_def
        scheme_char_def Let_def fresh_def peered_def)

theorem peer_failures_witness:
  "set ([] @ ''a'' # [''b'']) = nodes peered
   \<and> mixed (chain_url ''a'') = Inr (Response 503 None)
   \<and> status_code (Response 503 None) \<noteq> 200
   \<and> resolve_conflicts zero_sha mixed ([] @ ''a'' # [''b'']) peered =
       Inr (True, peered\<lparr>chain := PList [forged]\<rparr>)
   \<and> set ([''b''] @ ''a'' # []) = nodes peered
   \<and> half (chain_url ''a'') = Inl ConnectionError
   \<and> resolve_conflicts zero_sha half [''b''] peered = Inr (True, peered\<lparr>chain := PList [forged]\<rparr>)
   \<and> resolve_conflicts zero_sha half ([''b''] @ ''a'' # []) peered = Inl ConnectionError"
proof -
  have a: "mixed (chain_url ''a'') = Inr (Response 503 None)"
    by (simp add: mixed_def)
  have b: "half (chain_url ''a'') = Inl ConnectionError"
    by (simp add: half_def)
  have c: "set ([] @ ''a'' # [''b'']) = nodes peered" "set ([''b''] @ ''a'' # []) = nodes peered"
    by (auto simp: peered_def)
  have d: "resolve_conflicts zero_sha mixed [''b''] peered = Inr (True, peered\<lparr>chain := PList [forged]\<rparr>)"
    by (simp add: resolve_conflicts_def fresh_def peered_def mixed_def lying_def chain_url_def
          response_field_def response_json_def py_gt_def vc_single)
  have f: "resolve_conflicts zero_sha half [''b''] peered = Inr (True, peered\<lparr>chain := PList [forged]\<rparr>)"
    by (simp add: resolve_conflicts_def fresh_def peered_def half_def lying_def chain_url_def
          response_field_def response_json_def py_gt_def vc_single)
  from peer_failures [where net = mixed and node = "''a''" and r = "Response 503 None"
                        and sha = zero_sha and pre = "[]" and post = "[''b'']" and self = peered]
       a d
  have one: "resolve_conflicts zero_sha mixed ([] @ ''a'' # [''b'']) peered =
       Inr (True, peered\<lparr>chain := PList [forged]\<rparr>)"
    by simp
  from peer_failures [where net = half and node = "''a''" and e = ConnectionError
                        and sha = zero_sha and pre = "[''b'']" and post = "[]" and self = peered]
       b f
  have two: "resolve_conflicts zero_sha half ([''b''] @ ''a'' # []) peered = Inl ConnectionError"
    by blast
  from a b c f one two show ?thesis by simp
qed

text \<open>
  The claim that an unreachable peer is skipped fails: with the peer \<^verbatim>\<open>a\<close> unreachable and
  the peer \<^verbatim>\<open>b\<close> offering a chain that would be adopted, \<open>resolve_conflicts\<close> raises.
\<close>

theorem unreachable_peer_aborts:
  "resolve_conflicts zero_sha half [''a'', ''b''] peered = Inl ConnectionError"
  by (simp add: resolve_conflicts_def fresh_def peered_def half_def chain_url_def)

text \<open>
  C9.  \<open>resolve_conflicts\<close> compares the length a peer reports, not the number of blocks
  it sent: a peer that reports one more than the local length and sends a chain of a single
  block, which \<open>valid_chain\<close> accepts, has that chain replace the local one, although it
  holds no more blocks than the local chain.
\<close>

theorem reported_length_decides:
  assumes "chain self = PList bs" "bs \<noteq> []" "nodes self = set [peer]"
  shows "lying (length bs) (chain_url peer) =
           Inr (Response 200 (Some (PDict [(''chain'', PList [forged]),
                                           (''length'', PInt (int (length bs) + 1))])))
         \<and> valid_chain sha (PList [forged]) (next_id self) = Inr (True, next_id self)
         \<and> length [forged] \<le> length bs
         \<and> resolve_conflicts sha (lying (length bs)) [peer] self =
             Inr (True, self\<lparr>chain := PList [forged], next_id := next_id self\<rparr>)"
  using assms resolve_lying [OF assms(1)]
  by (cases bs) (simp_all add: lying_def vc_single)

theorem reported_length_decides_witness:
  "chain (grown\<lparr>nodes := {''b''}\<rparr>) = PList [genesis, second] \<and> [genesis, second] \<noteq> []
   \<and> nodes (grown\<lparr>nodes := {''b''}\<rparr>) = set [''b'']
   \<and> resolve_conflicts zero_sha (lying 2) [''b''] (grown\<lparr>nodes := {''b''}\<rparr>) =
       Inr (True, grown\<lparr>nodes := {''b''}, chain := PList [forged]\<rparr>)
   \<and> length [forged] \<le> length [genesis, second]"
proof -
  have a: "chain (grown\<lparr>nodes := {''b''}\<rparr>) = PList [genesis, second]" by (simp add: grown_def)
  have b: "nodes (grown\<lparr>nodes := {''b''}\<rparr>) = set [''b'']" by simp
  from reported_length_decides [OF a _ b, of zero_sha] a show ?thesis
    by (simp add: grown_def numeral_2_eq_2)
qed

lemma netloc_absent:
  "take 2 (after_scheme (url_clean address)) \<noteq> ''//'' \<Longrightarrow> urlparse_netloc address = Inr []"
  by (simp add: urlparse_netloc_def Let_def)

text \<open>
  C10.  \<open>register_node\<close> stores the netloc of the parsed address and nothing else.  When
  the address, with its scheme split off, does not start with \<^verbatim>\<open>//\<close>, the netloc is empty
  and the empty string joins the peer set; registering an address again leaves the set as
  it is.
\<close>

theorem register_node_netloc:
  "(take 2 (after_scheme (url_clean address)) \<noteq> ''//''
      \<longrightarrow> register_node address self = Inr (self\<lparr>nodes := insert [] (nodes self)\<rparr>))
   \<and> (register_node address self = Inr self'
      \<longrightarrow> (\<exists>netloc. urlparse_netloc address = Inr netloc \<and> nodes self' = insert netloc (nodes self))
          \<and> register_node address self' = Inr self')"
  by (auto simp: register_node_def netloc_absent split: sum.splits)

lemma localhost_rest: "after_scheme (url_clean ''localhost:5000'') = ''5000''"
  by (simp add: url_clean_def after_scheme_def ascii_alpha_def scheme_char_def Let_def)

theorem register_node_netloc_witness:
  "take 2 (after_scheme (url_clean ''localhost:5000'')) \<noteq> ''//''
   \<and> register_node ''localhost:5000'' fresh = Inr (fresh\<lparr>nodes := {[]}\<rparr>)
   \<and> register_node ''localhost:5000'' (fresh\<lparr>nodes := {[]}\<rparr>) = Inr (fresh\<lparr>nodes := {[]}\<rparr>)
   \<and> card (nodes (fresh\<lparr>nodes := {[]}\<rparr>)) = 1"
proof -
  have a: "take 2 (after_scheme (url_clean ''localhost:5000'')) \<noteq> ''//''"
    by (simp add: localhost_rest)
  have b: "fresh\<lparr>nodes := insert [] (nodes fresh)\<rparr> = fresh\<lparr>nodes := {[]}\<rparr>"
    by (simp add: fresh_def)
  from register_node_netloc [of "''localhost:5000''" fresh "fresh\<lparr>nodes := {[]}\<rparr>"] a b
  show ?thesis by simp
qed

lemma http_netloc: "urlparse_netloc ''http://192.168.0.5:5000/chain'' = Inr ''192.168.0.5:5000''"
  by (simp add: urlparse_netloc_def url_clean_def after_scheme_def ascii_alpha_def scheme_char_def Let_def)

lemma pow_loop_finds:
  assumes "valid_proof sha lp (PInt (p + int k)) = Inr True"
    "\<forall>j<k. valid_proof sha lp (PInt (p + int j)) = Inr False"
  shows "pow_loop sha lp p = Some (Inr (p + int k))"
  using assms
proof (induction k arbitrary: p)
  case 0
  then show ?case by (subst pow_loop.simps) simp
next
  case (Suc k)
  from Suc.prems(2) have "valid_proof sha lp (PInt (p + int 0)) = Inr False"
    by blast
  then have here: "valid_proof sha lp (PInt p) = Inr False"
    by simp
  have "valid_proof sha lp (PInt (p + 1 + int k)) = Inr True"
    using Suc.prems(1) by (simp add: add.assoc)
  moreover have "\<forall>j<k. valid_proof sha lp (PInt (p + 1 + int j)) = Inr False"
  proof (intro allI impI)
    fix j assume "j < k"
    then have "Suc j < Suc k" by simp
    with Suc.prems(2) have "valid_proof sha lp (PInt (p + int (Suc j))) = Inr False" by blast
    then show "valid_proof sha lp (PInt (p + 1 + int j)) = Inr False" by (simp add: add.assoc)
  qed
  ultimately have "pow_loop sha lp (p + 1) = Some (Inr (p + 1 + int k))"
    by (rule Suc.IH)
  with here show ?case
    by (subst pow_loop.simps) (simp add: add.assoc)
qed

lemma proof_of_work_least:
  assumes "valid_proof sha lp (PInt (int k)) = Inr True"
    "\<forall>j<k. valid_proof sha lp (PInt (int j)) = Inr False"
  shows "proof_of_work sha lp = Some (Inr (int k))"
  using pow_loop_finds [of sha lp 0 k] assms by (simp add: proof_of_work_def)

lemma filter_key_single:
  "distinct (map fst xs) \<Longrightarrow> k \<in> set xs \<Longrightarrow> filter (\<lambda>x. fst k = fst x) xs = [k]"
proof (induction xs)
  case Nil
  then show ?case by simp
next
  case (Cons a xs)
  from Cons.prems(1) have na: "\<forall>x\<in>set xs. fst a \<noteq> fst x" and dx: "distinct (map fst xs)"
    by (auto simp: image_iff)
  show ?case
  proof (cases "a = k")
    case True
    with na have "filter (\<lambda>x. fst k = fst x) xs = []" by (simp add: filter_empty_conv)
    with True show ?thesis by simp
  next
    case False
    with Cons.prems(2) have kx: "k \<in> set xs" by simp
    with na have "fst k \<noteq> fst a" by auto
    with Cons.IH [OF dx kx] show ?thesis by simp
  qed
qed

lemma sort_key_insertion_order:
  assumes "distinct (map fst xs)" "mset xs = mset ys"
  shows "sort_key fst xs = sort_key fst ys"
proof (rule properties_for_sort_key)
  show "mset (sort_key fst ys) = mset xs" using assms(2) by simp
  show "sorted (map fst (sort_key fst ys))" by simp
  fix k assume k: "k \<in> set (sort_key fst ys)"
  from assms(2) have "mset (map fst (sort_key fst ys)) = mset (map fst xs)" by simp
  then have dy: "distinct (map fst (sort_key fst ys))"
    using assms(1) mset_eq_imp_distinct_iff by blast
  from assms(2) have "set xs = set ys" by (rule mset_eq_setD)
  with k have kx: "k \<in> set xs" by simp
  show "filter (\<lambda>x. fst k = fst x) (sort_key fst ys) = filter (\<lambda>x. fst k = fst x) xs"
    by (simp add: filter_key_single [OF dy k] filter_key_single [OF assms(1) kx])
qed

lemma hash_insertion_order:
  assumes "distinct (map fst kvs)" "mset kvs = mset kvs'"
  shows "hash sha (PDict kvs) i = hash sha (PDict kvs') i"
  by (simp add: hash_def sort_key_insertion_order [OF assms])

lemma hexdigest_length: "length (hexdigest d) = 64"
  by (simp add: hexdigest_def)

end
